theory Spec2Isabelle
  imports Complex_Main
begin

section \<open>JavaScript values used by the player store\<close>

text \<open>
  The store keeps \<open>currentIndex\<close> as a JavaScript number. Every index the actions
  receive is an integer; the only other value the actions can write is \<open>undefined\<close>
  (a read past the end of \<open>availableIndices\<close> in \<open>nextTrack\<close>).
\<close>

datatype js_index = IxUndefined | Ix int

text \<open>
  \<open>currentTrack\<close> holds a track object, \<open>null\<close>, or \<open>undefined\<close> (an array read out of
  range). Track objects are truthy.
\<close>

datatype 'a js_ref = Undefined | Null | Obj 'a

datatype repeat_mode = RepeatOff | RepeatOne | RepeatAll

text \<open>\<open>xs[i]\<close>: a read outside \<open>0 \<le> i < xs.length\<close>, or at \<open>undefined\<close>, gives \<open>undefined\<close>.\<close>

definition js_at :: "'a list \<Rightarrow> js_index \<Rightarrow> 'a js_ref" where
  "js_at xs i =
     (case i of
        IxUndefined \<Rightarrow> Undefined
      | Ix k \<Rightarrow> if 0 \<le> k \<and> k < int (length xs) then Obj (xs ! nat k) else Undefined)"

text \<open>\<open>v || null\<close> on a track reference.\<close>

definition or_null :: "'a js_ref \<Rightarrow> 'a js_ref" where
  "or_null v = (case v of Obj t \<Rightarrow> Obj t | _ \<Rightarrow> Null)"

text \<open>\<open>ns[k]\<close> on an array of numbers, read at a non-negative integer position.\<close>

definition num_at :: "int list \<Rightarrow> nat \<Rightarrow> js_index" where
  "num_at ns k = (if k < length ns then Ix (ns ! k) else IxUndefined)"

text \<open>
  Relational operators with \<open>currentIndex\<close> on one side and an integer on the other:
  \<open>undefined\<close> converts to \<open>NaN\<close>, and every comparison with \<open>NaN\<close> is false.
\<close>

definition num_lt_ix :: "int \<Rightarrow> js_index \<Rightarrow> bool" where
  "num_lt_ix n i = (case i of IxUndefined \<Rightarrow> False | Ix c \<Rightarrow> n < c)"

definition ix_lt_num :: "js_index \<Rightarrow> int \<Rightarrow> bool" where
  "ix_lt_num i n = (case i of IxUndefined \<Rightarrow> False | Ix c \<Rightarrow> c < n)"

definition ix_gt_num :: "js_index \<Rightarrow> int \<Rightarrow> bool" where
  "ix_gt_num i n = (case i of IxUndefined \<Rightarrow> False | Ix c \<Rightarrow> n < c)"

definition ix_ge_num :: "js_index \<Rightarrow> int \<Rightarrow> bool" where
  "ix_ge_num i n = (case i of IxUndefined \<Rightarrow> False | Ix c \<Rightarrow> n \<le> c)"

text \<open>
  \<open>i - 1\<close>, used by the actions only after a comparison that has excluded
  \<open>undefined\<close>; on \<open>undefined\<close> JavaScript gives \<open>NaN\<close>, which no action can reach.
\<close>

definition ix_pred :: "js_index \<Rightarrow> js_index" where
  "ix_pred i = (case i of IxUndefined \<Rightarrow> IxUndefined | Ix c \<Rightarrow> Ix (c - 1))"

definition ix_succ :: "js_index \<Rightarrow> js_index" where
  "ix_succ i = (case i of IxUndefined \<Rightarrow> IxUndefined | Ix c \<Rightarrow> Ix (c + 1))"

text \<open>\<open>xs.filter((_, i) => i !== index)\<close>.\<close>

definition filter_index :: "int \<Rightarrow> 'a list \<Rightarrow> 'a list" where
  "filter_index index xs =
     map snd (filter (\<lambda>(i, _). int i \<noteq> index) (enumerate 0 xs))"

section \<open>Playlist tracks (the Playlist model, \<open>reorderTracks\<close>)\<close>

text \<open>
  A track of a playlist; \<open>addedAt\<close> and \<open>addedBy\<close>, which \<open>reorderTracks\<close> carries along
  with the track, are left out.
\<close>

record track =
  trackId :: string
  title :: string
  artist :: string
  duration :: nat
  audioUrl :: string
  imageUrl :: string

text \<open>
  \<open>trackIds.forEach(id => { const track = this.tracks.find(t => t.trackId === id);
  if (track) reorderedTracks.push(track) })\<close>, the accumulator made explicit.
\<close>

fun reorder_loop :: "track list \<Rightarrow> string list \<Rightarrow> track list \<Rightarrow> track list" where
  "reorder_loop tracks [] reorderedTracks = reorderedTracks"
| "reorder_loop tracks (i # ids) reorderedTracks =
     (case find (\<lambda>t. trackId t = i) tracks of
        None \<Rightarrow> reorder_loop tracks ids reorderedTracks
      | Some t \<Rightarrow> reorder_loop tracks ids (reorderedTracks @ [t]))"

definition reorderTracks :: "string list \<Rightarrow> track list \<Rightarrow> track list" where
  "reorderTracks trackIds tracks = reorder_loop tracks trackIds []"

section \<open>The music player store (frontend/src/store/index.js)\<close>

record ('t, 'p) player =
  currentTrack :: "'t js_ref"
  currentPlaylist :: "'p option"
  queue :: "'t list"
  currentIndex :: js_index
  isPlaying :: bool
  volume :: real
  isMuted :: bool
  currentTime :: real
  duration :: real
  isLoading :: bool
  shuffle :: bool
  repeat :: repeat_mode

definition initial :: "('t, 'p) player" where
  "initial =
     \<lparr> currentTrack = Null, currentPlaylist = None, queue = [], currentIndex = Ix 0,
       isPlaying = False, volume = 8 / 10, isMuted = False, currentTime = 0,
       duration = 0, isLoading = False, shuffle = False, repeat = RepeatOff \<rparr>"

text \<open>
  The actions, each as a function from the state before to the state after; \<open>set\<close>
  merges the fields it is given into the state. The defaults \<open>playlist = null\<close>,
  \<open>index = 0\<close> and \<open>startIndex = 0\<close> are the caller's to pass.
\<close>

definition setCurrentTrack ::
  "'t js_ref \<Rightarrow> 'p option \<Rightarrow> int \<Rightarrow> ('t, 'p) player \<Rightarrow> ('t, 'p) player" where
  "setCurrentTrack track playlist index s =
     s\<lparr> currentTrack := track, currentPlaylist := playlist,
        currentIndex := Ix index, isLoading := True \<rparr>"

definition setQueue :: "'t list \<Rightarrow> int \<Rightarrow> ('t, 'p) player \<Rightarrow> ('t, 'p) player" where
  "setQueue tracks startIndex s =
     s\<lparr> queue := tracks, currentIndex := Ix startIndex,
        currentTrack := or_null (js_at tracks (Ix startIndex)) \<rparr>"

definition play :: "('t, 'p) player \<Rightarrow> ('t, 'p) player" where
  "play s = s\<lparr> isPlaying := True \<rparr>"

definition pause :: "('t, 'p) player \<Rightarrow> ('t, 'p) player" where
  "pause s = s\<lparr> isPlaying := False \<rparr>"

definition toggleShuffle :: "('t, 'p) player \<Rightarrow> ('t, 'p) player" where
  "toggleShuffle s = s\<lparr> shuffle := \<not> shuffle s \<rparr>"

definition setRepeat :: "repeat_mode \<Rightarrow> ('t, 'p) player \<Rightarrow> ('t, 'p) player" where
  "setRepeat mode s = s\<lparr> repeat := mode \<rparr>"

text \<open>
  \<open>availableIndices\<close> of \<open>nextTrack\<close>:
  \<open>queue.map((_, i) => i).filter(i => i !== currentIndex)\<close>.
\<close>

definition availableIndices :: "'t list \<Rightarrow> js_index \<Rightarrow> int list" where
  "availableIndices q cur = filter (\<lambda>i. Ix i \<noteq> cur) (map int [0 ..< length q])"

text \<open>
  The index \<open>nextTrack\<close> moves to, \<open>None\<close> where it returns early. \<open>u\<close> is the value
  of \<open>Math.random()\<close>, a number with \<open>0 \<le> u < 1\<close>.
\<close>

definition nextIndex :: "real \<Rightarrow> ('t, 'p) player \<Rightarrow> js_index option" where
  "nextIndex u s =
     (let q = queue s; cur = currentIndex s in
      if shuffle s then
        (let avail = availableIndices q cur
         in Some (num_at avail (nat \<lfloor>u * real (length avail)\<rfloor>)))
      else if repeat s = RepeatOne then Some cur
      else if repeat s = RepeatAll \<and> cur = Ix (int (length q) - 1) then Some (Ix 0)
      else if ix_lt_num cur (int (length q) - 1) then Some (ix_succ cur)
      else None)"

definition nextTrack :: "real \<Rightarrow> ('t, 'p) player \<Rightarrow> ('t, 'p) player" where
  "nextTrack u s =
     (if length (queue s) = 0 then s
      else case nextIndex u s of
             None \<Rightarrow> s
           | Some n \<Rightarrow>
               s\<lparr> currentIndex := n, currentTrack := js_at (queue s) n,
                  currentTime := 0, isLoading := True \<rparr>)"

definition prevIndex :: "('t, 'p) player \<Rightarrow> js_index option" where
  "prevIndex s =
     (let q = queue s; cur = currentIndex s in
      if repeat s = RepeatAll \<and> cur = Ix 0 then Some (Ix (int (length q) - 1))
      else if ix_gt_num cur 0 then Some (ix_pred cur)
      else None)"

definition previousTrack :: "('t, 'p) player \<Rightarrow> ('t, 'p) player" where
  "previousTrack s =
     (if length (queue s) = 0 then s
      else case prevIndex s of
             None \<Rightarrow> s
           | Some n \<Rightarrow>
               s\<lparr> currentIndex := n, currentTrack := js_at (queue s) n,
                  currentTime := 0, isLoading := True \<rparr>)"

definition seekToTrack :: "int \<Rightarrow> ('t, 'p) player \<Rightarrow> ('t, 'p) player" where
  "seekToTrack index s =
     (if 0 \<le> index \<and> index < int (length (queue s)) then
        s\<lparr> currentIndex := Ix index, currentTrack := js_at (queue s) (Ix index),
           currentTime := 0, isLoading := True \<rparr>
      else s)"

definition addToQueue :: "'t \<Rightarrow> ('t, 'p) player \<Rightarrow> ('t, 'p) player" where
  "addToQueue track s = s\<lparr> queue := queue s @ [track] \<rparr>"

text \<open>
  The object \<open>removeFromQueue\<close> returns on its last line, for the new queue and the
  new cursor.
\<close>

definition removed :: "'t list \<Rightarrow> js_index \<Rightarrow> ('t, 'p) player \<Rightarrow> ('t, 'p) player" where
  "removed newQueue newCurrentIndex s =
     s\<lparr> queue := newQueue, currentIndex := newCurrentIndex,
        currentTrack := or_null (js_at newQueue newCurrentIndex) \<rparr>"

definition removeFromQueue :: "int \<Rightarrow> ('t, 'p) player \<Rightarrow> ('t, 'p) player" where
  "removeFromQueue index s =
     (let newQueue = filter_index index (queue s);
          cur = currentIndex s
      in if num_lt_ix index cur then removed newQueue (ix_pred cur) s
         else if Ix index = cur then
           (if length newQueue = 0 then
              s\<lparr> queue := [], currentTrack := Null, currentIndex := Ix 0,
                 isPlaying := False \<rparr>
            else if ix_ge_num cur (int (length newQueue)) then removed newQueue (Ix 0) s
            else removed newQueue cur s)
         else removed newQueue cur s)"

definition clearQueue :: "('t, 'p) player \<Rightarrow> ('t, 'p) player" where
  "clearQueue s =
     s\<lparr> queue := [], currentTrack := Null, currentIndex := Ix 0,
        isPlaying := False, currentTime := 0 \<rparr>"

definition reset :: "('t, 'p) player \<Rightarrow> ('t, 'p) player" where
  "reset s =
     s\<lparr> currentTrack := Null, currentPlaylist := None, queue := [],
        currentIndex := Ix 0, isPlaying := False, currentTime := 0,
        duration := 0, isLoading := False \<rparr>"

text \<open>The cursor bound: a non-empty queue has \<open>0 \<le> currentIndex < queue.length\<close>.\<close>

definition cursor_ok :: "('t, 'p) player \<Rightarrow> bool" where
  "cursor_ok s =
     (queue s = [] \<or>
      (case currentIndex s of
         IxUndefined \<Rightarrow> False
       | Ix c \<Rightarrow> 0 \<le> c \<and> c < int (length (queue s))))"

section \<open>Example states\<close>

text \<open>States built with the store's own actions, starting from its initial state.\<close>

definition a_playing :: "(string, string) player" where
  "a_playing = play (setQueue [''A''] 0 initial)"

definition single_shuffled :: "(string, string) player" where
  "single_shuffled = toggleShuffle (setQueue [''A''] 0 initial)"

definition ab_at_1 :: "(string, string) player" where
  "ab_at_1 = setQueue [''A'', ''B''] 1 initial"

definition abc_at_0 :: "(string, string) player" where
  "abc_at_0 = setQueue [''A'', ''B'', ''C''] 0 initial"

definition abc_at_1 :: "(string, string) player" where
  "abc_at_1 = setQueue [''A'', ''B'', ''C''] 1 initial"

definition abc_at_2 :: "(string, string) player" where
  "abc_at_2 = setQueue [''A'', ''B'', ''C''] 2 initial"

definition abc_all_at_0 :: "(string, string) player" where
  "abc_all_at_0 = setRepeat RepeatAll abc_at_0"

definition abc_all :: "(string, string) player" where
  "abc_all = setRepeat RepeatAll abc_at_2"

definition abc_shuffle_all :: "(string, string) player" where
  "abc_shuffle_all = toggleShuffle abc_all"

definition mk_track :: "string \<Rightarrow> string \<Rightarrow> track" where
  "mk_track i t = \<lparr> trackId = i, title = t, artist = ''artist'', duration = 180,
       audioUrl = ''audio'', imageUrl = ''image'' \<rparr>"

definition shared_id_tracks :: "track list" where
  "shared_id_tracks = [mk_track ''a'' ''first'', mk_track ''a'' ''second'']"

definition three_tracks :: "track list" where
  "three_tracks = [mk_track ''a'' ''one'', mk_track ''b'' ''two'', mk_track ''c'' ''three'']"

section \<open>Auxiliary facts\<close>

lemmas js_defs = js_at_def or_null_def num_at_def num_lt_ix_def ix_lt_num_def
  ix_gt_num_def ix_ge_num_def ix_pred_def ix_succ_def

lemmas example_defs = a_playing_def single_shuffled_def ab_at_1_def abc_at_0_def
  abc_at_1_def abc_at_2_def abc_all_at_0_def abc_all_def abc_shuffle_all_def
  play_def toggleShuffle_def setQueue_def setRepeat_def initial_def

subsection \<open>Removing one position from an array\<close>

lemma filter_index_enumerate:
  "map snd (filter (\<lambda>(i, _). int i \<noteq> index) (enumerate n xs)) =
     (if int n \<le> index \<and> index < int n + int (length xs)
      then take (nat index - n) xs @ drop (Suc (nat index - n)) xs else xs)"
proof (induction xs arbitrary: n)
  case Nil
  then show ?case by simp
next
  case (Cons x xs)
  show ?case
  proof (cases "int n = index")
    case True
    then show ?thesis using Cons.IH [of "Suc n"] by auto
  next
    case False
    show ?thesis
    proof (cases "int (Suc n) \<le> index \<and> index < int (Suc n) + int (length xs)")
      case True
      then have k: "nat index - n = Suc (nat index - Suc n)" by linarith
      from True False show ?thesis using Cons.IH [of "Suc n"] by (simp add: k)
    next
      case out: False
      with False show ?thesis using Cons.IH [of "Suc n"] by auto
    qed
  qed
qed

lemma filter_index_in:
  "0 \<le> index \<Longrightarrow> index < int (length xs) \<Longrightarrow>
   filter_index index xs = take (nat index) xs @ drop (Suc (nat index)) xs"
  by (simp add: filter_index_def filter_index_enumerate)

lemma filter_index_out:
  "index < 0 \<or> int (length xs) \<le> index \<Longrightarrow> filter_index index xs = xs"
  by (auto simp: filter_index_def filter_index_enumerate)

lemma length_filter_index:
  "length (filter_index index xs) =
     (if 0 \<le> index \<and> index < int (length xs) then length xs - 1 else length xs)"
  by (auto simp: filter_index_in filter_index_out)

lemma nth_filter_index:
  assumes "0 \<le> index" "index < int (length xs)" "Suc k < length xs"
  shows "filter_index index xs ! k = (if int k < index then xs ! k else xs ! Suc k)"
proof -
  have "filter_index index xs = take (nat index) xs @ drop (Suc (nat index)) xs"
    using assms by (simp add: filter_index_in)
  moreover have "length (take (nat index) xs) = nat index" using assms by simp
  ultimately show ?thesis using assms
    by (auto simp: nth_append)
qed

lemma filter_index_examples:
  "filter_index 0 [''A''] = []"
  "filter_index 0 [''A'', ''B''] = [''B'']"
  "filter_index 1 [''A'', ''B'', ''C''] = [''A'', ''C'']"
  "filter_index 2 [''A'', ''B'', ''C''] = [''A'', ''B'']"
  by (simp_all add: filter_index_def)

subsection \<open>The shuffle draw\<close>

lemma random_position:
  assumes "0 \<le> u" "u < 1" "0 < n"
  shows "nat \<lfloor>u * real n\<rfloor> < n"
proof -
  have "u * real n < real n" using assms by simp
  then have "\<lfloor>u * real n\<rfloor> < int n" by (simp add: floor_less_iff)
  moreover have "0 \<le> \<lfloor>u * real n\<rfloor>" using assms by simp
  ultimately show ?thesis by linarith
qed

lemma set_availableIndices:
  "set (availableIndices q cur) = {i. 0 \<le> i \<and> i < int (length q) \<and> Ix i \<noteq> cur}"
proof -
  have "set (map int [0 ..< length q]) = {i. 0 \<le> i \<and> i < int (length q)}"
  proof (intro set_eqI iffI)
    fix i assume "i \<in> {i. 0 \<le> i \<and> i < int (length q)}"
    then have "nat i \<in> set [0 ..< length q]" and "i = int (nat i)" by auto
    then show "i \<in> set (map int [0 ..< length q])" by (metis image_eqI set_map)
  qed auto
  then show ?thesis unfolding availableIndices_def by auto
qed

lemma availableIndices_nonempty:
  assumes "2 \<le> length q"
  shows "availableIndices q cur \<noteq> []"
proof -
  have "0 \<in> set (availableIndices q cur) \<or> 1 \<in> set (availableIndices q cur)"
    using assms by (auto simp: set_availableIndices)
  then show ?thesis by auto
qed

lemma availableIndices_singleton:
  "length q = 1 \<Longrightarrow> availableIndices q (Ix 0) = []"
  by (simp add: availableIndices_def)

lemma availableIndices_abc: "availableIndices [''A'', ''B'', ''C''] (Ix 2) = [0, 1]"
  by (simp add: availableIndices_def upt_rec)

lemma shuffle_pick:
  assumes "2 \<le> length q" "0 \<le> u" "u < 1"
  shows "nat \<lfloor>u * real (length (availableIndices q cur))\<rfloor> < length (availableIndices q cur) \<and>
    0 \<le> availableIndices q cur ! nat \<lfloor>u * real (length (availableIndices q cur))\<rfloor> \<and>
    availableIndices q cur ! nat \<lfloor>u * real (length (availableIndices q cur))\<rfloor>
      < int (length q) \<and>
    Ix (availableIndices q cur ! nat \<lfloor>u * real (length (availableIndices q cur))\<rfloor>) \<noteq> cur"
proof -
  let ?avail = "availableIndices q cur"
  let ?k = "nat \<lfloor>u * real (length ?avail)\<rfloor>"
  have "?avail \<noteq> []" using assms(1) by (rule availableIndices_nonempty)
  then have k: "?k < length ?avail" using assms(2,3) by (simp add: random_position)
  then have "?avail ! ?k \<in> set ?avail" by simp
  with k show ?thesis by (simp add: set_availableIndices)
qed

lemma nextTrack_shuffle_singleton:
  assumes "shuffle s" "length (queue s) = 1" "currentIndex s = Ix 0"
  shows "nextTrack u s =
     s\<lparr> currentIndex := IxUndefined, currentTrack := Undefined,
        currentTime := 0, isLoading := True \<rparr>"
  using assms by (simp add: nextTrack_def nextIndex_def availableIndices_singleton js_defs)

subsection \<open>The cursor bound, action by action\<close>

lemma cursor_ok_nextTrack:
  assumes "cursor_ok s" "0 \<le> u" "u < 1" "\<not> (shuffle s \<and> length (queue s) = 1)"
  shows "cursor_ok (nextTrack u s)"
proof (cases "shuffle s \<and> queue s \<noteq> []")
  case True
  then have "length (queue s) \<noteq> 0" "length (queue s) \<noteq> 1" using assms(4) by auto
  then have "2 \<le> length (queue s)" by linarith
  from shuffle_pick [OF this assms(2,3), of "currentIndex s"] True show ?thesis
    by (simp add: nextTrack_def nextIndex_def Let_def cursor_ok_def js_defs)
next
  case False
  with assms(1) show ?thesis
    by (cases "currentIndex s")
       (auto simp: nextTrack_def nextIndex_def Let_def cursor_ok_def js_defs)
qed

lemma cursor_ok_previousTrack: "cursor_ok s \<Longrightarrow> cursor_ok (previousTrack s)"
  by (cases "currentIndex s")
     (auto simp: previousTrack_def prevIndex_def Let_def cursor_ok_def js_defs)

lemma cursor_ok_seekToTrack: "cursor_ok s \<Longrightarrow> cursor_ok (seekToTrack i s)"
  by (simp add: seekToTrack_def cursor_ok_def)

lemma cursor_ok_removeFromQueue:
  assumes "cursor_ok s" "0 \<le> i"
  shows "cursor_ok (removeFromQueue i s)"
proof (cases "queue s = []")
  case True
  then show ?thesis
    by (simp add: removeFromQueue_def removed_def Let_def cursor_ok_def filter_index_def)
next
  case False
  with assms(1) obtain c where c: "currentIndex s = Ix c" "0 \<le> c" "c < int (length (queue s))"
    by (cases "currentIndex s") (auto simp: cursor_ok_def)
  show ?thesis using c assms(2)
    by (auto simp: removeFromQueue_def removed_def Let_def cursor_ok_def js_defs
        length_filter_index)
qed

lemma cursor_ok_addToQueue:
  "cursor_ok s \<Longrightarrow> queue s \<noteq> [] \<or> currentIndex s = Ix 0 \<Longrightarrow> cursor_ok (addToQueue t s)"
  by (cases "currentIndex s") (auto simp: addToQueue_def cursor_ok_def)

lemma cursor_ok_setQueue:
  "cursor_ok (setQueue tracks i s) \<longleftrightarrow> tracks = [] \<or> (0 \<le> i \<and> i < int (length tracks))"
  by (simp add: setQueue_def cursor_ok_def)

lemma cursor_ok_setCurrentTrack:
  "cursor_ok (setCurrentTrack tr p i s) \<longleftrightarrow>
     queue s = [] \<or> (0 \<le> i \<and> i < int (length (queue s)))"
  by (simp add: setCurrentTrack_def cursor_ok_def)

subsection \<open>Invalid indices and empty queues\<close>

lemma seekToTrack_out_of_range:
  "index < 0 \<or> int (length (queue s)) \<le> index \<Longrightarrow> seekToTrack index s = s"
  by (auto simp: seekToTrack_def)

lemma nextTrack_empty: "queue s = [] \<Longrightarrow> nextTrack u s = s"
  by (simp add: nextTrack_def)

lemma previousTrack_empty: "queue s = [] \<Longrightarrow> previousTrack s = s"
  by (simp add: previousTrack_def)

lemma removeFromQueue_beyond_end:
  assumes "int (length (queue s)) \<le> index" "currentIndex s = Ix c" "0 \<le> c"
    "c < int (length (queue s))"
  shows "queue (removeFromQueue index s) = queue s \<and>
    currentIndex (removeFromQueue index s) = currentIndex s \<and>
    currentTrack (removeFromQueue index s) = Obj (queue s ! nat c)"
  using assms by (simp add: removeFromQueue_def removed_def Let_def js_defs filter_index_out)

subsection \<open>The reorder loop\<close>

lemma reorder_loop_acc:
  "reorder_loop tracks ids acc = acc @ reorder_loop tracks ids []"
proof (induction ids arbitrary: acc)
  case Nil
  show ?case by simp
next
  case (Cons i ids)
  show ?case
  proof (cases "find (\<lambda>t. trackId t = i) tracks")
    case None
    then show ?thesis using Cons.IH [of acc] by simp
  next
    case (Some t)
    then show ?thesis using Cons.IH [of "acc @ [t]"] Cons.IH [of "[t]"] by simp
  qed
qed

lemma reorderTracks_Nil: "reorderTracks [] tracks = []"
  by (simp add: reorderTracks_def)

lemma reorderTracks_Cons:
  "reorderTracks (i # ids) tracks =
     (case find (\<lambda>t. trackId t = i) tracks of None \<Rightarrow> [] | Some t \<Rightarrow> [t])
       @ reorderTracks ids tracks"
  using reorder_loop_acc [of tracks ids "[_]"]
  by (simp add: reorderTracks_def split: option.splits)

lemma find_trackId_None:
  "find (\<lambda>t. trackId t = i) tracks = None \<longleftrightarrow> i \<notin> trackId ` set tracks"
  by (auto simp: find_None_iff)

lemma find_trackId_Some:
  "find (\<lambda>t. trackId t = i) tracks = Some t \<Longrightarrow> t \<in> set tracks \<and> trackId t = i"
  by (auto simp: find_Some_iff)

lemma find_trackId_distinct:
  "distinct (map trackId tracks) \<Longrightarrow> t \<in> set tracks \<Longrightarrow>
   find (\<lambda>x. trackId x = trackId t) tracks = Some t"
  by (induction tracks) (auto simp: image_iff)

lemma trackIds_reorderTracks:
  "map trackId (reorderTracks ids tracks) = filter (\<lambda>i. i \<in> trackId ` set tracks) ids"
proof (induction ids)
  case Nil
  show ?case by (simp add: reorderTracks_Nil)
next
  case (Cons i ids)
  show ?case
  proof (cases "find (\<lambda>t. trackId t = i) tracks")
    case None
    then have "i \<notin> trackId ` set tracks" by (simp add: find_trackId_None)
    with None Cons.IH show ?thesis by (simp add: reorderTracks_Cons)
  next
    case (Some t)
    from find_trackId_Some [OF Some] show ?thesis
      using Cons.IH Some by (auto simp: reorderTracks_Cons)
  qed
qed

lemma set_reorderTracks:
  "set (reorderTracks ids tracks) =
     {t. \<exists>i \<in> set ids. find (\<lambda>x. trackId x = i) tracks = Some t}"
proof (induction ids)
  case Nil
  show ?case by (simp add: reorderTracks_Nil)
next
  case (Cons i ids)
  then show ?case
    by (auto simp: reorderTracks_Cons split: option.splits)
qed

section \<open>Properties of the playback queue\<close>

text \<open>
  C1, as stated, fails: \<open>setQueue\<close> stores the start index it is given, so from the
  initial state (empty queue, cursor 0) \<open>setQueue([A], 5)\<close> reaches a state with a
  non-empty queue and the cursor at 5.
\<close>

theorem setQueue_breaks_cursor_bound:
  "cursor_ok (initial :: (string, string) player) \<and>
   \<not> cursor_ok (setQueue [''A''] 5 (initial :: (string, string) player)) \<and>
   queue (setQueue [''A''] 5 (initial :: (string, string) player)) = [''A''] \<and>
   currentIndex (setQueue [''A''] 5 (initial :: (string, string) player)) = Ix 5"
  by (simp add: cursor_ok_def setQueue_def initial_def)

text \<open>
  C1, amended. From a state in which the cursor bound holds (a non-empty queue has
  \<open>0 \<le> currentIndex < queue.length\<close>):
  \<^item> \<open>previousTrack\<close>, \<open>seekToTrack\<close>, \<open>clearQueue\<close> and \<open>reset\<close> keep the bound;
  \<^item> \<open>nextTrack\<close> keeps it, the case of \<open>shuffle\<close> on a one-track queue apart;
  \<^item> \<open>removeFromQueue(index)\<close> keeps it for every \<open>index \<ge> 0\<close>;
  \<^item> \<open>addToQueue\<close> keeps it when the queue is non-empty or the cursor is 0;
  \<^item> \<open>setQueue(tracks, startIndex)\<close> gives a state with the bound exactly when \<open>tracks\<close>
    is empty or \<open>0 \<le> startIndex < tracks.length\<close>;
  \<^item> \<open>setCurrentTrack(track, playlist, index)\<close> gives a state with the bound exactly when
    the queue is empty or \<open>0 \<le> index < queue.length\<close>.
\<close>

theorem cursor_bound_preserved:
  assumes "cursor_ok s"
  shows "cursor_ok (previousTrack s) \<and> cursor_ok (seekToTrack i s) \<and>
    cursor_ok (clearQueue s) \<and> cursor_ok (reset s) \<and>
    (0 \<le> u \<and> u < 1 \<and> \<not> (shuffle s \<and> length (queue s) = 1) \<longrightarrow> cursor_ok (nextTrack u s)) \<and>
    (0 \<le> j \<longrightarrow> cursor_ok (removeFromQueue j s)) \<and>
    (queue s \<noteq> [] \<or> currentIndex s = Ix 0 \<longrightarrow> cursor_ok (addToQueue t s)) \<and>
    (cursor_ok (setQueue tracks k s) \<longleftrightarrow> tracks = [] \<or> (0 \<le> k \<and> k < int (length tracks))) \<and>
    (cursor_ok (setCurrentTrack tr p m s) \<longleftrightarrow>
       queue s = [] \<or> (0 \<le> m \<and> m < int (length (queue s))))"
  using assms
  by (simp add: cursor_ok_nextTrack cursor_ok_previousTrack cursor_ok_seekToTrack
      cursor_ok_removeFromQueue cursor_ok_addToQueue cursor_ok_setQueue
      cursor_ok_setCurrentTrack)
     (simp add: cursor_ok_def clearQueue_def reset_def)

theorem cursor_bound_preserved_witness:
  "cursor_ok abc_at_1 \<and> cursor_ok (previousTrack abc_at_1) \<and>
   cursor_ok (seekToTrack 2 abc_at_1) \<and> cursor_ok (clearQueue abc_at_1) \<and>
   cursor_ok (reset abc_at_1) \<and> cursor_ok (nextTrack (1 / 2) abc_at_1) \<and>
   cursor_ok (removeFromQueue 1 abc_at_1) \<and> cursor_ok (addToQueue ''D'' abc_at_1) \<and>
   cursor_ok (setQueue [''X'', ''Y''] 1 abc_at_1) \<and>
   \<not> cursor_ok (setQueue [''X'', ''Y''] 2 abc_at_1) \<and>
   cursor_ok (setCurrentTrack (Obj ''B'') None 1 abc_at_1) \<and>
   \<not> cursor_ok (setCurrentTrack (Obj ''Z'') None 3 abc_at_1)"
proof -
  have h: "cursor_ok abc_at_1"
    by (simp add: cursor_ok_def example_defs)
  have q: "queue abc_at_1 = [''A'', ''B'', ''C'']" "\<not> shuffle abc_at_1"
    by (simp_all add: example_defs)
  from cursor_bound_preserved [OF h, where i = 2 and u = "1 / 2" and j = 1 and t = "''D''"
      and tracks = "[''X'', ''Y'']" and k = 1 and tr = "Obj ''B''" and p = None and m = 1]
    cursor_bound_preserved [OF h, where tracks = "[''X'', ''Y'']" and k = 2
      and tr = "Obj ''Z''" and p = None and m = 3]
  show ?thesis using h by (simp add: q)
qed

text \<open>
  C2. \<open>setQueue(tracks, startIndex)\<close> stores \<open>startIndex\<close> as the cursor without
  checking it against the bounds of \<open>tracks\<close>; the current track is
  \<open>tracks[startIndex]\<close> when the index is in range and \<open>null\<close> otherwise. On the empty
  list the current track is \<open>null\<close> for every \<open>startIndex\<close>, and the cursor still holds
  the supplied value.
\<close>

theorem setQueue_sets_cursor_unvalidated:
  "queue (setQueue tracks startIndex s) = tracks \<and>
   currentIndex (setQueue tracks startIndex s) = Ix startIndex \<and>
   currentTrack (setQueue tracks startIndex s) =
     (if 0 \<le> startIndex \<and> startIndex < int (length tracks)
      then Obj (tracks ! nat startIndex) else Null) \<and>
   currentTrack (setQueue [] startIndex s) = Null \<and>
   currentIndex (setQueue [] startIndex s) = Ix startIndex"
  by (simp add: setQueue_def js_defs)

text \<open>
  C3. With \<open>shuffle\<close> on and a queue of one track, \<open>availableIndices\<close> is empty, as the
  claim says; but \<open>nextTrack\<close> is not a no-op there. The read \<open>availableIndices[0]\<close>
  gives \<open>undefined\<close>, and the store is then written: the cursor and the current track
  both become \<open>undefined\<close>, the elapsed time is reset and \<open>isLoading\<close> is set. The state
  below is the one reached by \<open>setQueue([A], 0)\<close> and \<open>toggleShuffle()\<close>.
\<close>

theorem nextTrack_shuffle_singleton_loses_track:
  "shuffle single_shuffled \<and> queue single_shuffled = [''A''] \<and>
   currentIndex single_shuffled = Ix 0 \<and> currentTrack single_shuffled = Obj ''A'' \<and>
   availableIndices (queue single_shuffled) (currentIndex single_shuffled) = [] \<and>
   currentIndex (nextTrack (1 / 2) single_shuffled) = IxUndefined \<and>
   currentTrack (nextTrack (1 / 2) single_shuffled) = Undefined \<and>
   isLoading (nextTrack (1 / 2) single_shuffled) \<and>
   nextTrack (1 / 2) single_shuffled \<noteq> single_shuffled"
proof -
  have s: "shuffle single_shuffled" "queue single_shuffled = [''A'']"
    "currentIndex single_shuffled = Ix 0" "currentTrack single_shuffled = Obj ''A''"
    "isLoading single_shuffled = False"
    by (simp_all add: example_defs js_defs)
  have n: "nextTrack (1 / 2) single_shuffled =
     single_shuffled\<lparr> currentIndex := IxUndefined, currentTrack := Undefined,
        currentTime := 0, isLoading := True \<rparr>"
    by (rule nextTrack_shuffle_singleton) (simp_all add: s)
  have "nextTrack (1 / 2) single_shuffled \<noteq> single_shuffled"
  proof
    assume "nextTrack (1 / 2) single_shuffled = single_shuffled"
    then have "isLoading (nextTrack (1 / 2) single_shuffled) = isLoading single_shuffled"
      by simp
    then show False by (simp add: n s)
  qed
  then show ?thesis by (simp add: n) (simp add: s availableIndices_def)
qed

text \<open>
  C4, as stated, fails: the claim fixes \<open>repeat = 'all'\<close> and the cursor at the last
  index but not \<open>shuffle\<close>, and \<open>nextTrack\<close> tests \<open>shuffle\<close> first. On the queue
  \<open>[A, B, C]\<close> with the cursor at 2, \<open>repeat = 'all'\<close>, \<open>shuffle\<close> on and a random draw
  of 0.5, the cursor moves to 1 and the current track is B.
\<close>

theorem nextTrack_repeat_all_shuffle_counterexample:
  "queue abc_shuffle_all \<noteq> [] \<and> repeat abc_shuffle_all = RepeatAll \<and>
   currentIndex abc_shuffle_all = Ix (int (length (queue abc_shuffle_all)) - 1) \<and>
   currentIndex (nextTrack (1 / 2) abc_shuffle_all) = Ix 1 \<and>
   currentIndex (nextTrack (1 / 2) abc_shuffle_all) \<noteq> Ix 0 \<and>
   currentTrack (nextTrack (1 / 2) abc_shuffle_all) = Obj ''B''"
  by (simp add: example_defs nextTrack_def nextIndex_def availableIndices_abc js_defs)

text \<open>
  C4, amended: for every non-empty queue with \<open>repeat = 'all'\<close> and \<open>shuffle\<close> off,
  \<open>nextTrack\<close> with the cursor at the last index sets the cursor to 0 and the current
  track to the first queue element, resets the elapsed time to 0 and sets \<open>isLoading\<close>;
  nothing else changes.
\<close>

theorem nextTrack_repeat_all_wraps:
  assumes "queue s \<noteq> []" "repeat s = RepeatAll" "\<not> shuffle s"
    and "currentIndex s = Ix (int (length (queue s)) - 1)"
  shows "nextTrack u s =
     s\<lparr> currentIndex := Ix 0, currentTrack := Obj (queue s ! 0),
        currentTime := 0, isLoading := True \<rparr>"
  using assms by (simp add: nextTrack_def nextIndex_def js_defs)

theorem nextTrack_repeat_all_wraps_witness:
  "queue abc_all \<noteq> [] \<and> repeat abc_all = RepeatAll \<and> \<not> shuffle abc_all \<and>
   currentIndex abc_all = Ix (int (length (queue abc_all)) - 1) \<and>
   currentIndex (nextTrack (1 / 2) abc_all) = Ix 0 \<and>
   currentTrack (nextTrack (1 / 2) abc_all) = Obj ''A'' \<and>
   currentTime (nextTrack (1 / 2) abc_all) = 0 \<and> isLoading (nextTrack (1 / 2) abc_all)"
proof -
  have h: "queue abc_all \<noteq> []" "repeat abc_all = RepeatAll" "\<not> shuffle abc_all"
    "currentIndex abc_all = Ix (int (length (queue abc_all)) - 1)"
    by (simp_all add: example_defs)
  have q: "queue abc_all = [''A'', ''B'', ''C'']"
    by (simp add: example_defs)
  show ?thesis
    using h nextTrack_repeat_all_wraps [OF h, of "1 / 2"] by (simp add: q)
qed

text \<open>
  C5. With the cursor in bounds, \<open>removeFromQueue(index)\<close> adjusts the cursor as
  follows. If \<open>index < currentIndex\<close>, the cursor goes down by 1. If
  \<open>index = currentIndex\<close> and the new queue is empty, the queue is emptied, the current
  track is cleared and \<open>isPlaying\<close> becomes false; if the new queue is not empty and the
  old cursor is out of its bounds, the cursor becomes 0; otherwise the cursor keeps its
  value and the current track is the one that followed. If \<open>index > currentIndex\<close>, the
  cursor is unchanged.
\<close>

theorem removeFromQueue_cursor_adjustment:
  assumes "currentIndex s = Ix c" "0 \<le> c" "c < int (length (queue s))"
  shows "(index < c \<longrightarrow> currentIndex (removeFromQueue index s) = Ix (c - 1)) \<and>
    (index = c \<and> filter_index index (queue s) = [] \<longrightarrow>
       queue (removeFromQueue index s) = [] \<and>
       currentTrack (removeFromQueue index s) = Null \<and>
       isPlaying (removeFromQueue index s) = False) \<and>
    (index = c \<and> filter_index index (queue s) \<noteq> [] \<and>
       int (length (filter_index index (queue s))) \<le> c \<longrightarrow>
       currentIndex (removeFromQueue index s) = Ix 0) \<and>
    (index = c \<and> filter_index index (queue s) \<noteq> [] \<and>
       c < int (length (filter_index index (queue s))) \<longrightarrow>
       currentIndex (removeFromQueue index s) = Ix c \<and>
       currentTrack (removeFromQueue index s) = Obj (queue s ! (nat c + 1))) \<and>
    (c < index \<longrightarrow> currentIndex (removeFromQueue index s) = Ix c)"
proof (intro conjI impI)
  assume "index < c"
  then show "currentIndex (removeFromQueue index s) = Ix (c - 1)"
    using assms by (auto simp: removeFromQueue_def removed_def Let_def js_defs)
next
  assume a: "index = c \<and> filter_index index (queue s) = []"
  then show "queue (removeFromQueue index s) = []"
    "currentTrack (removeFromQueue index s) = Null"
    "isPlaying (removeFromQueue index s) = False"
    using assms by (auto simp: removeFromQueue_def removed_def Let_def js_defs)
next
  assume "index = c \<and> filter_index index (queue s) \<noteq> [] \<and>
       int (length (filter_index index (queue s))) \<le> c"
  then show "currentIndex (removeFromQueue index s) = Ix 0"
    using assms by (auto simp: removeFromQueue_def removed_def Let_def js_defs)
next
  assume a: "index = c \<and> filter_index index (queue s) \<noteq> [] \<and>
       c < int (length (filter_index index (queue s)))"
  then show "currentIndex (removeFromQueue index s) = Ix c"
    using assms by (auto simp: removeFromQueue_def removed_def Let_def js_defs)
  from a assms have "c < int (length (queue s) - 1)"
    by (auto simp: length_filter_index)
  then have l: "Suc (nat c) < length (queue s)" using assms(2) by linarith
  have "filter_index c (queue s) ! nat c = queue s ! Suc (nat c)"
    using nth_filter_index [OF assms(2,3) l] assms(2) by simp
  then show "currentTrack (removeFromQueue index s) = Obj (queue s ! (nat c + 1))"
    using a assms by (auto simp: removeFromQueue_def removed_def Let_def js_defs)
next
  assume "c < index"
  then show "currentIndex (removeFromQueue index s) = Ix c"
    using assms by (auto simp: removeFromQueue_def removed_def Let_def js_defs)
qed

theorem removeFromQueue_cursor_adjustment_witness:
  "currentIndex ab_at_1 = Ix 1 \<and> currentIndex (removeFromQueue 0 ab_at_1) = Ix 0 \<and>
   currentIndex a_playing = Ix 0 \<and> isPlaying a_playing \<and>
   queue (removeFromQueue 0 a_playing) = [] \<and>
   currentTrack (removeFromQueue 0 a_playing) = Null \<and>
   isPlaying (removeFromQueue 0 a_playing) = False \<and>
   currentIndex abc_at_2 = Ix 2 \<and> currentIndex (removeFromQueue 2 abc_at_2) = Ix 0 \<and>
   currentIndex abc_at_1 = Ix 1 \<and> currentIndex (removeFromQueue 1 abc_at_1) = Ix 1 \<and>
   currentTrack (removeFromQueue 1 abc_at_1) = Obj ''C'' \<and>
   currentIndex (removeFromQueue 2 abc_at_1) = Ix 1"
proof -
  have ab: "currentIndex ab_at_1 = Ix 1" "(0::int) \<le> 1" "1 < int (length (queue ab_at_1))"
    by (simp_all add: example_defs)
  have a: "currentIndex a_playing = Ix 0" "(0::int) \<le> 0" "0 < int (length (queue a_playing))"
    "isPlaying a_playing" "queue a_playing = [''A'']"
    by (simp_all add: example_defs)
  have abc2: "currentIndex abc_at_2 = Ix 2" "(0::int) \<le> 2"
    "2 < int (length (queue abc_at_2))" "queue abc_at_2 = [''A'', ''B'', ''C'']"
    by (simp_all add: example_defs)
  have abc1: "currentIndex abc_at_1 = Ix 1" "(0::int) \<le> 1"
    "1 < int (length (queue abc_at_1))" "queue abc_at_1 = [''A'', ''B'', ''C'']"
    by (simp_all add: example_defs)
  from removeFromQueue_cursor_adjustment [OF ab, of 0]
    removeFromQueue_cursor_adjustment [OF a(1-3), of 0]
    removeFromQueue_cursor_adjustment [OF abc2(1-3), of 2]
    removeFromQueue_cursor_adjustment [OF abc1(1-3), of 1]
    removeFromQueue_cursor_adjustment [OF abc1(1-3), of 2]
  show ?thesis
    by (simp add: ab a abc2 abc1 filter_index_examples)
qed

text \<open>
  C6. On a non-empty queue \<open>previousTrack\<close> wraps the cursor from 0 to the last index
  when \<open>repeat = 'all'\<close>, moves it down by 1 when it is above 0, and otherwise leaves
  the state as it is; every move resets the elapsed time and sets \<open>isLoading\<close>. The
  value of \<open>shuffle\<close> plays no part: the result is the same with \<open>shuffle\<close> on or off.
\<close>

theorem previousTrack_sequential:
  assumes "queue s \<noteq> []"
  shows "(repeat s = RepeatAll \<and> currentIndex s = Ix 0 \<longrightarrow>
       previousTrack s =
         s\<lparr> currentIndex := Ix (int (length (queue s)) - 1),
            currentTrack := Obj (queue s ! (length (queue s) - 1)),
            currentTime := 0, isLoading := True \<rparr>) \<and>
    (\<forall>c. currentIndex s = Ix c \<and> 0 < c \<longrightarrow>
       previousTrack s =
         s\<lparr> currentIndex := Ix (c - 1), currentTrack := js_at (queue s) (Ix (c - 1)),
            currentTime := 0, isLoading := True \<rparr>) \<and>
    (\<forall>c. currentIndex s = Ix c \<and> 0 < c \<and> c \<le> int (length (queue s)) \<longrightarrow>
       currentTrack (previousTrack s) = Obj (queue s ! nat (c - 1))) \<and>
    (\<not> (repeat s = RepeatAll \<and> currentIndex s = Ix 0) \<and>
     \<not> (\<exists>c. currentIndex s = Ix c \<and> 0 < c) \<longrightarrow> previousTrack s = s) \<and>
    previousTrack (s\<lparr> shuffle := b \<rparr>) = (previousTrack s)\<lparr> shuffle := b \<rparr>"
proof -
  have n: "nat (int (length (queue s)) - 1) = length (queue s) - 1" by simp
  show ?thesis using assms
    by (cases "currentIndex s")
       (auto simp: previousTrack_def prevIndex_def Let_def js_defs n)
qed

theorem previousTrack_sequential_witness:
  "queue abc_all_at_0 \<noteq> [] \<and> repeat abc_all_at_0 = RepeatAll \<and>
   currentIndex abc_all_at_0 = Ix 0 \<and>
   currentIndex (previousTrack abc_all_at_0) = Ix 2 \<and>
   currentTrack (previousTrack abc_all_at_0) = Obj ''C'' \<and>
   currentIndex abc_at_2 = Ix 2 \<and>
   currentIndex (previousTrack abc_at_2) = Ix 1 \<and>
   currentTrack (previousTrack abc_at_2) = Obj ''B'' \<and>
   currentIndex abc_at_0 = Ix 0 \<and> repeat abc_at_0 = RepeatOff \<and>
   previousTrack abc_at_0 = abc_at_0 \<and>
   previousTrack (abc_at_2\<lparr> shuffle := True \<rparr>) = (previousTrack abc_at_2)\<lparr> shuffle := True \<rparr>"
proof -
  have a0: "queue abc_all_at_0 \<noteq> []" "repeat abc_all_at_0 = RepeatAll"
    "currentIndex abc_all_at_0 = Ix 0" "queue abc_all_at_0 = [''A'', ''B'', ''C'']"
    by (simp_all add: example_defs)
  have s2: "queue abc_at_2 \<noteq> []" "currentIndex abc_at_2 = Ix 2"
    "queue abc_at_2 = [''A'', ''B'', ''C'']"
    by (simp_all add: example_defs)
  have s0: "queue abc_at_0 \<noteq> []" "currentIndex abc_at_0 = Ix 0" "repeat abc_at_0 = RepeatOff"
    by (simp_all add: example_defs)
  from previousTrack_sequential [OF a0(1)] previousTrack_sequential [OF s2(1), of True]
    previousTrack_sequential [OF s0(1)]
  show ?thesis
    by (simp add: a0 s2 s0 js_defs)
qed

text \<open>
  C7. \<open>seekToTrack\<close> with an index out of range, and \<open>nextTrack\<close> and \<open>previousTrack\<close> on
  an empty queue, leave the state as it is (\<open>seekToTrack_out_of_range\<close>,
  \<open>nextTrack_empty\<close>, \<open>previousTrack_empty\<close>), and so does \<open>removeFromQueue\<close> with an index
  past the end (\<open>removeFromQueue_beyond_end\<close>). A negative index is not a no-op for
  \<open>removeFromQueue\<close>: it has no range test, \<open>index < currentIndex\<close> holds, and the cursor
  goes down by 1 although nothing was removed. On the queue \<open>[A, B]\<close> with the cursor at
  1 and B current, \<open>removeFromQueue(-1)\<close> leaves the queue as it is, moves the cursor
  to 0 and makes A the current track.
\<close>

theorem removeFromQueue_negative_index_moves_cursor:
  "queue ab_at_1 = [''A'', ''B''] \<and> currentIndex ab_at_1 = Ix 1 \<and>
   currentTrack ab_at_1 = Obj ''B'' \<and>
   queue (removeFromQueue (- 1) ab_at_1) = [''A'', ''B''] \<and>
   currentIndex (removeFromQueue (- 1) ab_at_1) = Ix 0 \<and>
   currentTrack (removeFromQueue (- 1) ab_at_1) = Obj ''A''"
  by (simp add: example_defs removeFromQueue_def removed_def Let_def js_defs
      filter_index_out)

text \<open>
  C8. With \<open>shuffle\<close> on, a queue of at least two tracks and the cursor in bounds,
  \<open>nextTrack\<close> moves the cursor to an index inside the queue and different from the
  previous cursor, and the current track becomes the queue element at that index,
  whatever \<open>Math.random()\<close> returns in \<open>[0, 1)\<close>.
\<close>

theorem nextTrack_shuffle_other_index:
  assumes "2 \<le> length (queue s)" "shuffle s"
    and "currentIndex s = Ix c" "0 \<le> c" "c < int (length (queue s))"
    and "0 \<le> u" "u < 1"
  shows "\<exists>i. currentIndex (nextTrack u s) = Ix i \<and> 0 \<le> i \<and> i < int (length (queue s)) \<and>
             i \<noteq> c \<and> currentTrack (nextTrack u s) = Obj (queue s ! nat i)"
proof -
  let ?avail = "availableIndices (queue s) (currentIndex s)"
  let ?k = "nat \<lfloor>u * real (length ?avail)\<rfloor>"
  from shuffle_pick [OF assms(1,6,7), of "currentIndex s"]
  have k: "?k < length ?avail"
    and i: "0 \<le> ?avail ! ?k" "?avail ! ?k < int (length (queue s))" "?avail ! ?k \<noteq> c"
    using assms(3) by auto
  have q: "queue s \<noteq> []" using assms(1) by auto
  have "nextTrack u s = s\<lparr> currentIndex := Ix (?avail ! ?k),
      currentTrack := Obj (queue s ! nat (?avail ! ?k)), currentTime := 0, isLoading := True \<rparr>"
    using assms(2) q k i by (simp add: nextTrack_def nextIndex_def Let_def js_defs)
  with i show ?thesis by simp
qed

theorem nextTrack_shuffle_other_index_witness:
  "2 \<le> length (queue abc_shuffle_all) \<and> shuffle abc_shuffle_all \<and>
   currentIndex abc_shuffle_all = Ix 2 \<and> (0::int) \<le> 2 \<and>
   (2::int) < int (length (queue abc_shuffle_all)) \<and> (0::real) \<le> 1 / 2 \<and> (1 / 2 :: real) < 1 \<and>
   (\<exists>i. currentIndex (nextTrack (1 / 2) abc_shuffle_all) = Ix i \<and> 0 \<le> i \<and>
        i < int (length (queue abc_shuffle_all)) \<and> i \<noteq> 2 \<and>
        currentTrack (nextTrack (1 / 2) abc_shuffle_all) = Obj (queue abc_shuffle_all ! nat i))"
proof -
  have h: "2 \<le> length (queue abc_shuffle_all)" "shuffle abc_shuffle_all"
    "currentIndex abc_shuffle_all = Ix 2" "(0::int) \<le> 2"
    "(2::int) < int (length (queue abc_shuffle_all))"
    by (simp_all add: example_defs)
  have u: "(0::real) \<le> 1 / 2" "(1 / 2 :: real) < 1" by simp_all
  show ?thesis
    using h u nextTrack_shuffle_other_index [OF h u] by simp
qed

text \<open>
  C9, as stated, fails on a track list in which two tracks share a \<open>trackId\<close>:
  \<open>find\<close> returns the first of them, so the second is dropped although it is present
  and its id is in the supplied order.
\<close>

theorem reorderTracks_shared_id_counterexample:
  "mk_track ''a'' ''second'' \<in> set shared_id_tracks \<and>
   trackId (mk_track ''a'' ''second'') \<in> set [''a''] \<and>
   reorderTracks [''a''] shared_id_tracks = [mk_track ''a'' ''first''] \<and>
   mk_track ''a'' ''second'' \<notin> set (reorderTracks [''a''] shared_id_tracks)"
  by (simp add: shared_id_tracks_def mk_track_def reorderTracks_def)

text \<open>
  C9, amended. For every track list and every id order, the ids of the rebuilt list are
  the supplied ids that match a present track, in the supplied order (ids that match no
  present track contribute nothing), and every track of the rebuilt list is a present
  track. When the track ids of the list are pairwise distinct, as \<open>addTrack\<close> keeps
  them, the rebuilt list holds exactly the present tracks whose id is in the supplied
  order; the tracks whose id is not in it are dropped.
\<close>

theorem reorderTracks_distinct_ids:
  "map trackId (reorderTracks ids tracks) = filter (\<lambda>i. i \<in> trackId ` set tracks) ids \<and>
   set (reorderTracks ids tracks) \<subseteq> set tracks \<and>
   (distinct (map trackId tracks) \<longrightarrow>
      set (reorderTracks ids tracks) = {t \<in> set tracks. trackId t \<in> set ids})"
proof (intro conjI impI)
  show "map trackId (reorderTracks ids tracks) = filter (\<lambda>i. i \<in> trackId ` set tracks) ids"
    by (rule trackIds_reorderTracks)
  show "set (reorderTracks ids tracks) \<subseteq> set tracks"
    by (auto simp: set_reorderTracks dest: find_trackId_Some)
  assume d: "distinct (map trackId tracks)"
  show "set (reorderTracks ids tracks) = {t \<in> set tracks. trackId t \<in> set ids}"
  proof (intro set_eqI iffI)
    fix t assume "t \<in> set (reorderTracks ids tracks)"
    then show "t \<in> {t \<in> set tracks. trackId t \<in> set ids}"
      by (auto simp: set_reorderTracks dest: find_trackId_Some)
  next
    fix t assume "t \<in> {t \<in> set tracks. trackId t \<in> set ids}"
    then have "t \<in> set tracks" "trackId t \<in> set ids" by auto
    with find_trackId_distinct [OF d] show "t \<in> set (reorderTracks ids tracks)"
      by (auto simp: set_reorderTracks)
  qed
qed

theorem reorderTracks_distinct_ids_witness:
  "distinct (map trackId three_tracks) \<and>
   map trackId (reorderTracks [''c'', ''x'', ''a''] three_tracks) = [''c'', ''a''] \<and>
   set (reorderTracks [''c'', ''x'', ''a''] three_tracks) =
     {t \<in> set three_tracks. trackId t \<in> set [''c'', ''x'', ''a'']} \<and>
   reorderTracks [''c'', ''x'', ''a''] three_tracks =
     [mk_track ''c'' ''three'', mk_track ''a'' ''one'']"
proof -
  have d: "distinct (map trackId three_tracks)"
    by (simp add: three_tracks_def mk_track_def)
  have r: "reorderTracks [''c'', ''x'', ''a''] three_tracks =
     [mk_track ''c'' ''three'', mk_track ''a'' ''one'']"
    by (simp add: three_tracks_def mk_track_def reorderTracks_def)
  have i: "filter (\<lambda>i. i \<in> trackId ` set three_tracks) [''c'', ''x'', ''a''] = [''c'', ''a'']"
    by (simp add: three_tracks_def mk_track_def)
  from reorderTracks_distinct_ids [of "[''c'', ''x'', ''a'']" three_tracks] d
  have "map trackId (reorderTracks [''c'', ''x'', ''a''] three_tracks) =
      filter (\<lambda>i. i \<in> trackId ` set three_tracks) [''c'', ''x'', ''a'']"
    and "set (reorderTracks [''c'', ''x'', ''a''] three_tracks) =
     {t \<in> set three_tracks. trackId t \<in> set [''c'', ''x'', ''a'']}"
    by simp_all
  with d r i show ?thesis by simp
qed

text \<open>
  C10. Neither \<open>clearQueue\<close> nor \<open>reset\<close> touches \<open>shuffle\<close>, \<open>repeat\<close>, \<open>volume\<close> or
  \<open>isMuted\<close>, while both empty the queue, clear the current track, stop playback and
  set the elapsed time to 0.
\<close>

theorem clearQueue_reset_keep_modes:
  "shuffle (clearQueue s) = shuffle s \<and> repeat (clearQueue s) = repeat s \<and>
   volume (clearQueue s) = volume s \<and> isMuted (clearQueue s) = isMuted s \<and>
   shuffle (reset s) = shuffle s \<and> repeat (reset s) = repeat s \<and>
   volume (reset s) = volume s \<and> isMuted (reset s) = isMuted s \<and>
   queue (clearQueue s) = [] \<and> currentTrack (clearQueue s) = Null \<and>
   isPlaying (clearQueue s) = False \<and> currentTime (clearQueue s) = 0 \<and>
   queue (reset s) = [] \<and> currentTrack (reset s) = Null \<and>
   isPlaying (reset s) = False \<and> currentTime (reset s) = 0"
  by (simp add: clearQueue_def reset_def)

end
